theory Spec2Isabelle
  imports Main "HOL-Library.Word"
begin

section \<open>Strings of the source language\<close>

text \<open>
  The route handler and its parser \<^verbatim>\<open>parseDifyCSV\<close> are TypeScript. A string of the
  source is a finite sequence of 16-bit code units, so it is modelled as a list of
  \<^typ>\<open>16 word\<close>. Literals of the source are written \<open>str ''...''\<close>.
\<close>

type_synonym code_unit = "16 word"
type_synonym jsstring = "code_unit list"

definition str :: "string \<Rightarrow> jsstring" where
  "str s = map of_char s"

definition newline :: code_unit where "newline = 0x0A"
definition squote :: code_unit where "squote = 0x27"
definition dquote :: code_unit where "dquote = 0x22"
definition backslash :: code_unit where "backslash = 0x5C"
definition backtick :: code_unit where "backtick = 0x60"

text \<open>
  \<^verbatim>\<open>String.prototype.trim\<close> and the regular-expression class \<^verbatim>\<open>\s\<close> use the same set:
  the WhiteSpace and LineTerminator code points of the language.
\<close>

definition is_space :: "code_unit \<Rightarrow> bool" where
  "is_space c \<longleftrightarrow>
     c = 0x09 \<or> c = 0x0A \<or> c = 0x0B \<or> c = 0x0C \<or> c = 0x0D \<or> c = 0x20 \<or> c = 0xA0 \<or>
     c = 0x1680 \<or> (0x2000 \<le> c \<and> c \<le> 0x200A) \<or> c = 0x2028 \<or> c = 0x2029 \<or>
     c = 0x202F \<or> c = 0x205F \<or> c = 0x3000 \<or> c = 0xFEFF"

definition trim :: "jsstring \<Rightarrow> jsstring" where
  "trim s = rev (dropWhile is_space (rev (dropWhile is_space s)))"

text \<open>\<^verbatim>\<open>s.startsWith(p)\<close>, the test behind every literal match below.\<close>

fun starts_with :: "jsstring \<Rightarrow> jsstring \<Rightarrow> bool" where
  "starts_with [] s = True"
| "starts_with (p # ps) [] = False"
| "starts_with (p # ps) (c # cs) = (p = c \<and> starts_with ps cs)"

text \<open>\<^verbatim>\<open>s.includes(sub)\<close>: \<open>sub\<close> occurs at some position of \<open>s\<close>.\<close>

fun includes_str :: "jsstring \<Rightarrow> jsstring \<Rightarrow> bool" where
  "includes_str sub [] = starts_with sub []"
| "includes_str sub (c # cs) = (starts_with sub (c # cs) \<or> includes_str sub cs)"

text \<open>
  \<^verbatim>\<open>s.split(sep)\<close> for a string separator: the pieces between the non-overlapping
  occurrences of \<open>sep\<close>, found from the left. The empty string splits into one empty
  piece; with the empty separator the pieces are the single code units.
\<close>

function split_str :: "jsstring \<Rightarrow> jsstring \<Rightarrow> jsstring list" where
  "split_str sep [] = (if sep = [] then [] else [[]])"
| "split_str sep (c # cs) =
     (if sep = [] then [c] # split_str sep cs
      else if starts_with sep (c # cs)
        then [] # split_str sep (drop (length sep) (c # cs))
      else (case split_str sep cs of
              [] \<Rightarrow> [[c]]
            | p # ps \<Rightarrow> (c # p) # ps))"
  by pat_completeness auto
termination
  by (relation "measure (\<lambda>(sep, s). length s)") auto

section \<open>Normalizer and row splitter\<close>

text \<open>
  \<^verbatim>\<open>raw.replace(/```[a-z]*\n?/gi, "")\<close>: every fence found from the left is removed
  together with the letters that follow it and one newline after those. With the
  \<^verbatim>\<open>i\<close> flag and no \<^verbatim>\<open>u\<close> flag the class \<^verbatim>\<open>[a-z]\<close> matches the ASCII letters of both
  cases and no other code unit.
\<close>

definition fence :: jsstring where
  "fence = [backtick, backtick, backtick]"

definition is_ascii_letter :: "code_unit \<Rightarrow> bool" where
  "is_ascii_letter c \<longleftrightarrow> (0x41 \<le> c \<and> c \<le> 0x5A) \<or> (0x61 \<le> c \<and> c \<le> 0x7A)"

fun drop_newline :: "jsstring \<Rightarrow> jsstring" where
  "drop_newline [] = []"
| "drop_newline (c # cs) = (if c = newline then cs else c # cs)"

definition after_fence :: "jsstring \<Rightarrow> jsstring" where
  "after_fence s = drop_newline (dropWhile is_ascii_letter (drop 3 s))"

lemma length_drop_newline: "length (drop_newline s) \<le> length s"
  by (cases s) auto

lemma length_after_fence: "length (after_fence (c # cs)) < Suc (length cs)"
proof -
  have "length (after_fence (c # cs)) \<le> length (dropWhile is_ascii_letter (drop 3 (c # cs)))"
    unfolding after_fence_def by (rule length_drop_newline)
  also have "\<dots> \<le> length (drop 3 (c # cs))"
    by (rule length_dropWhile_le)
  also have "\<dots> < Suc (length cs)"
    by simp
  finally show ?thesis .
qed

function strip_open_fences :: "jsstring \<Rightarrow> jsstring" where
  "strip_open_fences [] = []"
| "strip_open_fences (c # cs) =
     (if starts_with fence (c # cs) then strip_open_fences (after_fence (c # cs))
      else c # strip_open_fences cs)"
  by pat_completeness auto
termination
  by (relation "measure length") (auto simp: length_after_fence)

text \<open>\<^verbatim>\<open>.replace(/```/g, "")\<close> on the result: the fences that the first pass left or formed.\<close>

function strip_fences :: "jsstring \<Rightarrow> jsstring" where
  "strip_fences [] = []"
| "strip_fences (c # cs) =
     (if starts_with fence (c # cs) then strip_fences (drop 3 (c # cs))
      else c # strip_fences cs)"
  by pat_completeness auto
termination
  by (relation "measure length") auto

definition normalize :: "jsstring \<Rightarrow> jsstring" where
  "normalize raw = trim (strip_fences (strip_open_fences raw))"

definition row_delim :: jsstring where "row_delim = str ''<_>''"
definition field_delim :: jsstring where "field_delim = str ''|->''"

text \<open>
  Lines 65 to 68: the rows are the pieces between \<^verbatim>\<open><_>\<close> that are not blank; when
  there is at most one and the text has both the field delimiter and a newline, the
  rows are the lines that contain the field delimiter.
\<close>

definition split_rows :: "jsstring \<Rightarrow> jsstring list" where
  "split_rows cleanRaw =
     (let rows = filter (\<lambda>row. length (trim row) > 0) (split_str row_delim cleanRaw)
      in if length rows \<le> 1 \<and> includes_str field_delim cleanRaw \<and> includes_str [newline] cleanRaw
         then filter (\<lambda>row. includes_str field_delim row) (split_str [newline] cleanRaw)
         else rows)"

section \<open>JSON.parse\<close>

text \<open>
  The option decoder calls \<^verbatim>\<open>JSON.parse\<close> and uses whatever value it returns, so the
  model has the values of the JSON grammar of the language standard. A number is kept
  as the mathematical value of its literal, sign, decimal mantissa and decimal exponent
  (\<open>JNumber neg m e\<close> stands for \<open>m * 10 ^ e\<close>, negated when \<open>neg\<close>); an object is kept as
  its members in the order read. \<open>JNull\<close> is the \<^verbatim>\<open>null\<close> of the source. A text that
  \<^verbatim>\<open>JSON.parse\<close> rejects with a SyntaxError gives \<open>None\<close>.
  The limit that an engine puts on the depth of nesting is not part of the model.
\<close>

datatype json =
  JNull
| JBool bool
| JNumber bool nat int
| JString jsstring
| JArray "json list"
| JObject "(jsstring \<times> json) list"

definition is_json_ws :: "code_unit \<Rightarrow> bool" where
  "is_json_ws c \<longleftrightarrow> c = 0x09 \<or> c = 0x0A \<or> c = 0x0D \<or> c = 0x20"

definition skip_ws :: "jsstring \<Rightarrow> jsstring" where
  "skip_ws s = dropWhile is_json_ws s"

definition is_digit :: "code_unit \<Rightarrow> bool" where
  "is_digit c \<longleftrightarrow> 0x30 \<le> c \<and> c \<le> 0x39"

definition digits_val :: "jsstring \<Rightarrow> nat" where
  "digits_val ds = foldl (\<lambda>a d. 10 * a + unat (d - 0x30)) 0 ds"

definition hex_val :: "code_unit \<Rightarrow> code_unit option" where
  "hex_val c =
     (if 0x30 \<le> c \<and> c \<le> 0x39 then Some (c - 0x30)
      else if 0x41 \<le> c \<and> c \<le> 0x46 then Some (c - 0x37)
      else if 0x61 \<le> c \<and> c \<le> 0x66 then Some (c - 0x57)
      else None)"

definition hex4 :: "code_unit \<Rightarrow> code_unit \<Rightarrow> code_unit \<Rightarrow> code_unit \<Rightarrow> code_unit option" where
  "hex4 a b c d =
     (case (hex_val a, hex_val b, hex_val c, hex_val d) of
        (Some w, Some x, Some y, Some z) \<Rightarrow> Some (((w * 16 + x) * 16 + y) * 16 + z)
      | _ \<Rightarrow> None)"

text \<open>The single-character escapes: \<^verbatim>\<open>\" \\ \/ \b \f \n \r \t\<close>.\<close>

definition escape_char :: "code_unit \<Rightarrow> code_unit option" where
  "escape_char e =
     (if e = dquote then Some dquote
      else if e = backslash then Some backslash
      else if e = 0x2F then Some 0x2F
      else if e = 0x62 then Some 0x08
      else if e = 0x66 then Some 0x0C
      else if e = 0x6E then Some 0x0A
      else if e = 0x72 then Some 0x0D
      else if e = 0x74 then Some 0x09
      else None)"

definition cons_fst :: "'a \<Rightarrow> ('a list \<times> 'b) option \<Rightarrow> ('a list \<times> 'b) option" where
  "cons_fst x r = map_option (\<lambda>(xs, rest). (x # xs, rest)) r"

text \<open>
  The characters of a string literal after its opening quote, up to and including the
  closing quote: the decoded string and the rest of the input. A control character
  (below \<^verbatim>\<open>U+0020\<close>) is not allowed unescaped.
\<close>

fun json_string_body :: "jsstring \<Rightarrow> (jsstring \<times> jsstring) option" where
  "json_string_body [] = None"
| "json_string_body (c # cs) =
     (if c = dquote then Some ([], cs)
      else if c = backslash then
        (case cs of
           [] \<Rightarrow> None
         | e # es \<Rightarrow>
             if e = 0x75 then
               (case es of
                  h1 # h2 # h3 # h4 # r \<Rightarrow>
                    (case hex4 h1 h2 h3 h4 of
                       None \<Rightarrow> None
                     | Some u \<Rightarrow> cons_fst u (json_string_body r))
                | _ \<Rightarrow> None)
             else
               (case escape_char e of
                  None \<Rightarrow> None
                | Some x \<Rightarrow> cons_fst x (json_string_body es)))
      else if c < 0x20 then None
      else cons_fst c (json_string_body cs))"

text \<open>
  A number: \<^verbatim>\<open>-? (0 | [1-9][0-9]*) (\.[0-9]+)? ([eE][+-]?[0-9]+)?\<close>. A dot or an exponent
  mark with no digit after it is an error wherever it stands, so the parser fails there.
\<close>

definition json_fraction :: "jsstring \<Rightarrow> (jsstring \<times> jsstring) option" where
  "json_fraction s =
     (case s of
        [] \<Rightarrow> Some ([], [])
      | c # cs \<Rightarrow>
          if c = 0x2E then
            (if takeWhile is_digit cs = [] then None
             else Some (takeWhile is_digit cs, dropWhile is_digit cs))
          else Some ([], s))"

definition json_exponent :: "jsstring \<Rightarrow> (int \<times> jsstring) option" where
  "json_exponent s =
     (case s of
        [] \<Rightarrow> Some (0, [])
      | c # cs \<Rightarrow>
          if c = 0x65 \<or> c = 0x45 then
            (let (sg, r) =
                   (case cs of
                      [] \<Rightarrow> (1, [])
                    | x # xs \<Rightarrow>
                        if x = 0x2D then (- 1, xs)
                        else if x = 0x2B then (1, xs)
                        else (1, cs))
             in if takeWhile is_digit r = [] then None
                else Some (sg * int (digits_val (takeWhile is_digit r)), dropWhile is_digit r))
          else Some (0, s))"

definition json_number :: "jsstring \<Rightarrow> (json \<times> jsstring) option" where
  "json_number s =
     (let neg = starts_with [0x2D] s;
          s1 = (if neg then tl s else s)
      in case s1 of
           [] \<Rightarrow> None
         | d # ds \<Rightarrow>
             if \<not> is_digit d then None
             else
               (let ip = (if d = 0x30 then [d] else d # takeWhile is_digit ds);
                    s2 = (if d = 0x30 then ds else dropWhile is_digit ds)
                in case json_fraction s2 of
                     None \<Rightarrow> None
                   | Some (fp, s3) \<Rightarrow>
                       (case json_exponent s3 of
                          None \<Rightarrow> None
                        | Some (ex, s4) \<Rightarrow>
                            Some (JNumber neg (digits_val (ip @ fp)) (ex - int (length fp)), s4))))"

lemma length_skip_ws: "length (skip_ws s) \<le> length s"
  unfolding skip_ws_def by (rule length_dropWhile_le)

lemma cons_fst_Some:
  "cons_fst x r = Some (ys, rest) \<Longrightarrow> \<exists>xs. r = Some (xs, rest) \<and> ys = x # xs"
  unfolding cons_fst_def by (cases r) auto

lemma json_string_body_shorter:
  "json_string_body s = Some (k, r) \<Longrightarrow> length r < length s"
proof (induction s arbitrary: k r rule: json_string_body.induct)
  case 1
  then show ?case by simp
next
  case (2 c cs)
  show ?case
  proof (cases "c = dquote")
    case True
    with "2.prems" show ?thesis by simp
  next
    case nq: False
    show ?thesis
    proof (cases "c = backslash")
      case False
      with nq "2.prems" obtain xs where "json_string_body cs = Some (xs, r)"
        by (auto split: if_splits dest: cons_fst_Some)
      with "2.IH"(3) [OF nq False] nq False "2.prems" show ?thesis
        by (fastforce split: if_splits)
    next
      case bs: True
      with nq "2.prems" obtain e es where cs: "cs = e # es"
        by (cases cs) auto
      show ?thesis
      proof (cases "e = 0x75")
        case True
        with nq bs cs "2.prems" obtain h1 h2 h3 h4 r0 u xs
          where es: "es = h1 # h2 # h3 # h4 # r0" and "hex4 h1 h2 h3 h4 = Some u"
            and "json_string_body r0 = Some (xs, r)"
          by (auto split: list.splits option.splits dest: cons_fst_Some)
        with "2.IH"(1) [OF nq bs cs True es] cs show ?thesis
          by fastforce
      next
        case False
        with nq bs cs "2.prems" obtain x xs
          where "escape_char e = Some x" and "json_string_body es = Some (xs, r)"
          by (auto split: option.splits dest: cons_fst_Some)
        with "2.IH"(2) [OF nq bs cs False] cs show ?thesis
          by fastforce
      qed
    qed
  qed
qed

lemma skip_ws_Cons_shorter: "skip_ws r = d # ds \<Longrightarrow> length ds < length r"
  using length_skip_ws [of r] by simp

text \<open>
  A value, the elements of an array after its opening bracket, and the members of an
  object after its opening brace; each returns what it read and the rest of the input.
  Whitespace is allowed around every token. The tests \<open>length r < length s\<close> make the
  recursion well-founded; \<open>json_value_shorter\<close> below shows that they never fail.
\<close>

function json_value :: "jsstring \<Rightarrow> (json \<times> jsstring) option"
  and json_elements :: "jsstring \<Rightarrow> (json list \<times> jsstring) option"
  and json_members :: "jsstring \<Rightarrow> ((jsstring \<times> json) list \<times> jsstring) option"
where
  "json_value s =
     (case s of
        [] \<Rightarrow> None
      | c # cs \<Rightarrow>
          if c = 0x5B then
            (case skip_ws cs of
               [] \<Rightarrow> None
             | d # ds \<Rightarrow>
                 if d = 0x5D then Some (JArray [], ds)
                 else map_option (\<lambda>(vs, rest). (JArray vs, rest)) (json_elements (d # ds)))
          else if c = 0x7B then
            (case skip_ws cs of
               [] \<Rightarrow> None
             | d # ds \<Rightarrow>
                 if d = 0x7D then Some (JObject [], ds)
                 else map_option (\<lambda>(ms, rest). (JObject ms, rest)) (json_members (d # ds)))
          else if c = dquote then
            map_option (\<lambda>(t, rest). (JString t, rest)) (json_string_body cs)
          else if starts_with (str ''null'') s then Some (JNull, drop 4 s)
          else if starts_with (str ''true'') s then Some (JBool True, drop 4 s)
          else if starts_with (str ''false'') s then Some (JBool False, drop 5 s)
          else json_number s)"
| "json_elements s =
     (case json_value s of
        None \<Rightarrow> None
      | Some (v, r) \<Rightarrow>
          if length r < length s then
            (case skip_ws r of
               [] \<Rightarrow> None
             | d # ds \<Rightarrow>
                 if d = 0x2C then cons_fst v (json_elements (skip_ws ds))
                 else if d = 0x5D then Some ([v], ds)
                 else None)
          else None)"
| "json_members s =
     (case s of
        [] \<Rightarrow> None
      | q # qs \<Rightarrow>
          if q \<noteq> dquote then None
          else
            (case json_string_body qs of
               None \<Rightarrow> None
             | Some (k, r) \<Rightarrow>
                 (case skip_ws r of
                    [] \<Rightarrow> None
                  | col # r1 \<Rightarrow>
                      if col \<noteq> 0x3A then None
                      else
                        (case json_value (skip_ws r1) of
                           None \<Rightarrow> None
                         | Some (v, r2) \<Rightarrow>
                             if length r2 < length s then
                               (case skip_ws r2 of
                                  [] \<Rightarrow> None
                                | d # ds \<Rightarrow>
                                    if d = 0x2C then cons_fst (k, v) (json_members (skip_ws ds))
                                    else if d = 0x7D then Some ([(k, v)], ds)
                                    else None)
                             else None))))"
  by pat_completeness auto

termination
proof (relation "measure (\<lambda>x. case x of
          Inl s \<Rightarrow> 2 * length s
        | Inr (Inl s) \<Rightarrow> 2 * length s + 1
        | Inr (Inr s) \<Rightarrow> 2 * length s + 1)", goal_cases)
  case 1
  then show ?case by simp
next
  case (2 s c cs d ds)
  then show ?case using length_skip_ws [of cs] by simp
next
  case (3 s c cs d ds)
  then show ?case using length_skip_ws [of cs] by simp
next
  case (4 s)
  then show ?case by simp
next
  case (5 s x v r d ds)
  then show ?case
    using skip_ws_Cons_shorter [of r d ds] length_skip_ws [of ds] by simp
next
  case (6 s q qs kr k r col r1)
  then show ?case
    using json_string_body_shorter [of qs k r] skip_ws_Cons_shorter [of r col r1]
      length_skip_ws [of r1] by simp
next
  case (7 s q qs kr k r col r1 x v r2 d ds)
  then show ?case
    using skip_ws_Cons_shorter [of r2 d ds] length_skip_ws [of ds] by simp
qed


declare json_value.simps [simp del] json_elements.simps [simp del] json_members.simps [simp del]

definition JSON_parse :: "jsstring \<Rightarrow> json option" where
  "JSON_parse text =
     (case json_value (skip_ws text) of
        None \<Rightarrow> None
      | Some (v, r) \<Rightarrow> if skip_ws r = [] then Some v else None)"

text \<open>Every parser consumes input, so the length tests above always succeed.\<close>

lemma json_fraction_length: "json_fraction s = Some (fp, r) \<Longrightarrow> length r \<le> length s"
  using length_dropWhile_le [of is_digit "tl s"]
  by (auto simp: json_fraction_def split: list.splits if_splits)

lemma json_exponent_length: "json_exponent s = Some (ex, r) \<Longrightarrow> length r \<le> length s"
proof (cases s)
  case Nil
  then show "json_exponent s = Some (ex, r) \<Longrightarrow> length r \<le> length s"
    by (simp add: json_exponent_def)
next
  case (Cons c cs)
  assume a: "json_exponent s = Some (ex, r)"
  show "length r \<le> length s"
  proof (cases "c = 0x65 \<or> c = 0x45")
    case False
    with a Cons show ?thesis by (auto simp: json_exponent_def)
  next
    case True
    with a Cons obtain t where "r = dropWhile is_digit t" and "t = cs \<or> t = tl cs"
      by (auto simp: json_exponent_def Let_def split: list.splits if_splits prod.splits)
    then show ?thesis
      using Cons length_dropWhile_le [of is_digit t] by (cases cs) auto
  qed
qed

lemma json_number_shorter:
  assumes "json_number s = Some (v, r)"
  shows "length r < length s"
proof -
  define s1 where "s1 = (if starts_with [0x2D] s then tl s else s)"
  have s1_le: "length s1 \<le> length s"
    by (simp add: s1_def)
  from assms obtain d ds where s1: "s1 = d # ds"
    by (cases s1) (auto simp: json_number_def Let_def s1_def)
  define s2 where "s2 = (if d = 0x30 then ds else dropWhile is_digit ds)"
  have s2_le: "length s2 \<le> length ds"
    by (simp add: s2_def length_dropWhile_le)
  from assms s1 obtain fp s3 ex where
    fr: "json_fraction s2 = Some (fp, s3)" and exr: "json_exponent s3 = Some (ex, r)"
    unfolding json_number_def Let_def s1_def [symmetric]
    by (auto simp: s2_def split: if_splits option.splits)
  from json_fraction_length [OF fr] json_exponent_length [OF exr] s2_le s1 s1_le
  show ?thesis by simp
qed

lemma json_shorter:
  "(\<forall>v r. json_value s = Some (v, r) \<longrightarrow> length r < length s)"
  "(\<forall>vs r. json_elements s1 = Some (vs, r) \<longrightarrow> length r < length s1)"
  "(\<forall>ms r. json_members s2 = Some (ms, r) \<longrightarrow> length r < length s2)"
proof (induction s and s1 and s2 rule: json_value_json_elements_json_members.induct)
  case (1 s)
  show ?case
  proof (intro allI impI)
    fix v r
    assume a0: "json_value s = Some (v, r)"
    note a = a0 [unfolded json_value.simps [of s]]
    then obtain c cs where s: "s = c # cs"
      by (cases s) auto
    consider (arr) "c = 0x5B" | (obj) "c \<noteq> 0x5B" "c = 0x7B"
      | (strg) "c \<noteq> 0x5B" "c \<noteq> 0x7B" "c = dquote"
      | (other) "c \<noteq> 0x5B" "c \<noteq> 0x7B" "c \<noteq> dquote"
      by blast
    then show "length r < length s"
    proof cases
      case arr
      with a s obtain d ds where sk: "skip_ws cs = d # ds"
        by (cases "skip_ws cs") auto
      show ?thesis
      proof (cases "d = 0x5D")
        case True
        with a s arr sk have "r = ds" by simp
        with skip_ws_Cons_shorter [OF sk] s show ?thesis by simp
      next
        case False
        with a s arr sk obtain vs where "json_elements (d # ds) = Some (vs, r)"
          by auto
        with "1.IH"(1) [OF s arr sk False] have "length r < length (d # ds)" by blast
        with length_skip_ws [of cs] sk s show ?thesis by simp
      qed
    next
      case obj
      with a s obtain d ds where sk: "skip_ws cs = d # ds"
        by (cases "skip_ws cs") auto
      show ?thesis
      proof (cases "d = 0x7D")
        case True
        with a s obj sk have "r = ds" by simp
        with skip_ws_Cons_shorter [OF sk] s show ?thesis by simp
      next
        case False
        with a s obj sk obtain ms where "json_members (d # ds) = Some (ms, r)"
          by auto
        with "1.IH"(2) [OF s obj(1) obj(2) sk False] have "length r < length (d # ds)" by blast
        with length_skip_ws [of cs] sk s show ?thesis by simp
      qed
    next
      case strg
      with a s obtain t where "json_string_body cs = Some (t, r)"
        by auto
      from json_string_body_shorter [OF this] s show ?thesis by simp
    next
      case other
      with a s have
        "(r = drop 4 s \<or> r = drop 5 s) \<or> json_number s = Some (v, r)"
        by (auto split: if_splits)
      then show ?thesis
        using s json_number_shorter [of s v r] by auto
    qed
  qed
next
  case (2 s)
  show ?case
  proof (intro allI impI)
    fix vs r
    assume a0: "json_elements s = Some (vs, r)"
    note a = a0 [unfolded json_elements.simps [of s]]
    then obtain v r0 where v: "json_value s = Some (v, r0)"
      by (cases "json_value s") auto
    with "2.IH"(1) have lt: "length r0 < length s" by blast
    with a v obtain d ds where sk: "skip_ws r0 = d # ds"
      by (cases "skip_ws r0") auto
    show "length r < length s"
    proof (cases "d = 0x2C")
      case True
      with a v lt sk obtain ws where "json_elements (skip_ws ds) = Some (ws, r)"
        by (auto dest: cons_fst_Some)
      with "2.IH"(2) [OF v refl lt sk True] have "length r < length (skip_ws ds)" by blast
      with length_skip_ws [of ds] skip_ws_Cons_shorter [OF sk] lt show ?thesis by simp
    next
      case False
      with a v lt sk have "r = ds"
        by (auto split: if_splits)
      with skip_ws_Cons_shorter [OF sk] lt show ?thesis by simp
    qed
  qed
next
  case (3 s)
  show ?case
  proof (intro allI impI)
    fix ms r
    assume a0: "json_members s = Some (ms, r)"
    note a = a0 [unfolded json_members.simps [of s]]
    then obtain q qs where s: "s = q # qs"
      by (cases s) auto
    with a have q: "\<not> q \<noteq> dquote"
      by (auto split: if_splits)
    with a s obtain k r0 where k: "json_string_body qs = Some (k, r0)"
      by (cases "json_string_body qs") auto
    with a s q obtain col r1 where sk: "skip_ws r0 = col # r1"
      by (cases "skip_ws r0") auto
    with a s q k have col: "\<not> col \<noteq> 0x3A"
      by (auto split: if_splits)
    with a s q k sk obtain v r2 where v: "json_value (skip_ws r1) = Some (v, r2)"
      by (cases "json_value (skip_ws r1)") auto
    with "3.IH"(1) [OF s q k refl sk col] have "length r2 < length (skip_ws r1)" by blast
    with length_skip_ws [of r1] skip_ws_Cons_shorter [OF sk] json_string_body_shorter [OF k] s
    have lt: "length r2 < length s" by simp
    with a s q k sk col v obtain d ds where sk2: "skip_ws r2 = d # ds"
      by (cases "skip_ws r2") auto
    show "length r < length s"
    proof (cases "d = 0x2C")
      case True
      with a s q k sk col v lt sk2 obtain ws where "json_members (skip_ws ds) = Some (ws, r)"
        by (auto dest: cons_fst_Some)
      with "3.IH"(2) [OF s q k refl sk col v refl lt sk2 True]
      have "length r < length (skip_ws ds)" by blast
      with length_skip_ws [of ds] skip_ws_Cons_shorter [OF sk2] lt show ?thesis by simp
    next
      case False
      with a s q k sk col v lt sk2 have "r = ds"
        by (auto split: if_splits)
      with skip_ws_Cons_shorter [OF sk2] lt show ?thesis by simp
    qed
  qed
qed

lemma json_value_shorter: "json_value s = Some (v, r) \<Longrightarrow> length r < length s"
  using json_shorter(1) by blast

lemma json_elements_unguarded:
  "json_elements s =
     (case json_value s of
        None \<Rightarrow> None
      | Some (v, r) \<Rightarrow>
          (case skip_ws r of
             [] \<Rightarrow> None
           | d # ds \<Rightarrow>
               if d = 0x2C then cons_fst v (json_elements (skip_ws ds))
               else if d = 0x5D then Some ([v], ds)
               else None))"
  by (subst json_elements.simps) (auto split: option.splits dest: json_value_shorter)

text \<open>
  Truthiness of a parsed value, as the operator \<^verbatim>\<open>||\<close> tests it: \<^verbatim>\<open>null\<close>, \<^verbatim>\<open>false\<close>,
  the empty string and a number that is zero are falsy. A literal denotes zero when its
  correctly rounded double is zero, that is when its value is at most \<open>2 ^ -1075\<close>.
\<close>

definition rounds_to_zero :: "nat \<Rightarrow> int \<Rightarrow> bool" where
  "rounds_to_zero m e \<longleftrightarrow> m = 0 \<or> (e < 0 \<and> m * 2 ^ 1075 \<le> 10 ^ nat (- e))"

definition js_falsy :: "json \<Rightarrow> bool" where
  "js_falsy v =
     (case v of
        JNull \<Rightarrow> True
      | JBool b \<Rightarrow> \<not> b
      | JNumber neg m e \<Rightarrow> rounds_to_zero m e
      | JString t \<Rightarrow> t = []
      | JArray vs \<Rightarrow> False
      | JObject ms \<Rightarrow> False)"

section \<open>Question records and the option decoder\<close>

text \<open>
  \<^verbatim>\<open>SkillType\<close> and \<^verbatim>\<open>QuestionType\<close> are string types of the store module and the casts
  to them do nothing at run time, so \<open>skill\<close> and \<open>type\<close> are strings. The field
  \<open>options\<close> holds what the decoder returned; \<open>JNull\<close> is the absent value.
\<close>

record question =
  id :: jsstring
  description :: jsstring
  options :: json
  answer :: jsstring
  skill :: jsstring
  type :: jsstring

definition multiple_choice :: jsstring where
  "multiple_choice = str ''Multiple Choice''"

text \<open>
  Lines 86 to 95 and, with the same text, lines 119 to 127: \<^verbatim>\<open>JSON.parse\<close> of the options
  text with every \<^verbatim>\<open>'\<close> replaced by \<^verbatim>\<open>"\<close>; when that throws, the text without the
  characters \<^verbatim>\<open>[\<close>, \<^verbatim>\<open>]\<close> and \<^verbatim>\<open>'\<close> is split on commas, each piece trimmed, and
  the empty pieces dropped.
\<close>

definition sanitize :: "jsstring \<Rightarrow> jsstring" where
  "sanitize optionsStr = map (\<lambda>c. if c = squote then dquote else c) optionsStr"

definition fallback_options :: "jsstring \<Rightarrow> jsstring list" where
  "fallback_options optionsStr =
     filter (\<lambda>piece. length piece > 0)
       (map trim
         (split_str (str '','')
           (filter (\<lambda>c. c \<noteq> 0x5B \<and> c \<noteq> 0x5D \<and> c \<noteq> squote) optionsStr)))"

definition decode_options :: "jsstring \<Rightarrow> json" where
  "decode_options optionsStr =
     (case JSON_parse (sanitize optionsStr) of
        Some v \<Rightarrow> v
      | None \<Rightarrow> JArray (map JString (fallback_options optionsStr)))"

section \<open>Strategy A: delimited fields\<close>

text \<open>
  Lines 77 to 81, for the trimmed parts of a row: description, options text, answer,
  skill and type.
\<close>

definition strategyA_fields ::
  "jsstring list \<Rightarrow> jsstring \<Rightarrow> jsstring \<Rightarrow> jsstring \<times> jsstring \<times> jsstring \<times> jsstring \<times> jsstring" where
  "strategyA_fields parts defaultSkill defaultType =
     (parts ! 0,
      if length parts \<ge> 5 then parts ! 1 else [],
      if length parts \<ge> 5 then parts ! 2 else parts ! 1,
      if length parts \<ge> 5 then parts ! 3 else defaultSkill,
      if length parts \<ge> 5 then parts ! 4 else defaultType)"

text \<open>
  Lines 76 to 106. \<open>uuid\<close> is what \<^verbatim>\<open>crypto.randomUUID()\<close> returns for this record.
  With fewer than two parts nothing is pushed and the row goes on to Strategy B.
\<close>

definition strategyA :: "jsstring \<Rightarrow> jsstring list \<Rightarrow> jsstring \<Rightarrow> jsstring \<Rightarrow> question option" where
  "strategyA uuid parts defaultSkill defaultType =
     (if length parts \<ge> 2 then
        (case strategyA_fields parts defaultSkill defaultType of
           (d, optionsStr, a, sk, ty) \<Rightarrow>
             Some \<lparr>id = uuid, description = d,
                   options = (if ty = multiple_choice then decode_options optionsStr else JNull),
                   answer = a, skill = sk, type = ty\<rparr>)
      else None)"

section \<open>Strategy B: labelled spans\<close>

text \<open>
  The three regular expressions have the flag \<^verbatim>\<open>i\<close> and not \<^verbatim>\<open>u\<close>: a code unit matches
  a letter of the pattern when it is that ASCII letter in either case, and no code unit
  outside ASCII matches an ASCII letter.
\<close>

definition canon :: "code_unit \<Rightarrow> code_unit" where
  "canon c = (if 0x61 \<le> c \<and> c \<le> 0x7A then c - 0x20 else c)"

fun ci_starts_with :: "jsstring \<Rightarrow> jsstring \<Rightarrow> bool" where
  "ci_starts_with [] s = True"
| "ci_starts_with (p # ps) [] = False"
| "ci_starts_with (p # ps) (c # cs) = (canon p = canon c \<and> ci_starts_with ps cs)"

text \<open>The first alternative of a label group that matches here, and the text after it.\<close>

fun match_label :: "jsstring list \<Rightarrow> jsstring \<Rightarrow> jsstring option" where
  "match_label [] s = None"
| "match_label (l # ls) s =
     (if ci_starts_with l s then Some (drop (length l) s) else match_label ls s)"

text \<open>The leftmost position where a label matches: \<^verbatim>\<open>row.match\<close> searches from the left.\<close>

fun find_label :: "jsstring list \<Rightarrow> jsstring \<Rightarrow> jsstring option" where
  "find_label ls [] = match_label ls []"
| "find_label ls (c # cs) =
     (case match_label ls (c # cs) of
        Some r \<Rightarrow> Some r
      | None \<Rightarrow> find_label ls cs)"

text \<open>
  The lazy group \<^verbatim>\<open>([\s\S]*?)\<close> before a lookahead \<^verbatim>\<open>(?=A|B|$)\<close>: the shortest text up to
  a position where a stop label starts, or up to the end.
\<close>

fun lazy_until :: "jsstring list \<Rightarrow> jsstring \<Rightarrow> jsstring" where
  "lazy_until stops [] = []"
| "lazy_until stops (c # cs) =
     (if list_ex (\<lambda>l. ci_starts_with l (c # cs)) stops then []
      else c # lazy_until stops cs)"

text \<open>
  A whole expression \<^verbatim>\<open>label \s* ([\s\S]*?) (?=stops|$)\<close>: group 1 of the match, or
  \<open>None\<close> when \<^verbatim>\<open>match\<close> returns \<^verbatim>\<open>null\<close>. After a label the rest always matches, so the
  greedy \<^verbatim>\<open>\s*\<close> keeps all the whitespace it took.
\<close>

definition capture_after :: "jsstring list \<Rightarrow> jsstring list \<Rightarrow> jsstring \<Rightarrow> jsstring option" where
  "capture_after labels stops row =
     map_option (\<lambda>r. lazy_until stops (dropWhile is_space r)) (find_label labels row)"

definition desc_labels :: "jsstring list" where
  "desc_labels = [str ''Description:'', str ''1.:'', str ''2.:'', str ''3.:'', str ''4.:'', str ''5.:'']"

definition descMatch :: "jsstring \<Rightarrow> jsstring option" where
  "descMatch row = capture_after desc_labels [str ''Options:'', str ''Answer:''] row"

definition optMatch :: "jsstring \<Rightarrow> jsstring option" where
  "optMatch row = capture_after [str ''Options:''] [str ''Answer:''] row"

definition ansMatch :: "jsstring \<Rightarrow> jsstring option" where
  "ansMatch row = capture_after [str ''Answer:''] [str ''Skill:'', str ''Type:''] row"

text \<open>Lines 111 to 138.\<close>

definition strategyB :: "jsstring \<Rightarrow> jsstring \<Rightarrow> jsstring \<Rightarrow> jsstring \<Rightarrow> question option" where
  "strategyB uuid row defaultSkill defaultType =
     (case descMatch row of
        None \<Rightarrow> None
      | Some d \<Rightarrow>
          (case ansMatch row of
             None \<Rightarrow> None
           | Some a \<Rightarrow>
               (let options =
                      (if defaultType = multiple_choice then
                         (case optMatch row of
                            None \<Rightarrow> JNull
                          | Some opt \<Rightarrow> decode_options (trim opt))
                       else JNull)
                in Some \<lparr>id = uuid, description = trim d,
                         options =
                           (if js_falsy options
                            then (if defaultType = multiple_choice then JArray [] else JNull)
                            else options),
                         answer = trim a, skill = defaultSkill, type = defaultType\<rparr>)))"

section \<open>The parser\<close>

text \<open>The body of the \<^verbatim>\<open>forEach\<close> callback for one row.\<close>

definition parse_row :: "jsstring \<Rightarrow> jsstring \<Rightarrow> jsstring \<Rightarrow> jsstring \<Rightarrow> question option" where
  "parse_row uuid row defaultSkill defaultType =
     (if includes_str field_delim row then
        (case strategyA uuid (map trim (split_str field_delim row)) defaultSkill defaultType of
           Some q \<Rightarrow> Some q
         | None \<Rightarrow> strategyB uuid row defaultSkill defaultType)
      else strategyB uuid row defaultSkill defaultType)"

text \<open>
  The loop over the rows. Identifiers are random in the source; here \<open>gen k\<close> is the
  identifier that the \<open>k\<close>-th call of \<^verbatim>\<open>crypto.randomUUID()\<close> returns, and a call is
  made only when a record is pushed.
\<close>

fun for_each_row ::
  "(nat \<Rightarrow> jsstring) \<Rightarrow> nat \<Rightarrow> jsstring list \<Rightarrow> jsstring \<Rightarrow> jsstring \<Rightarrow> question list" where
  "for_each_row gen k [] defaultSkill defaultType = []"
| "for_each_row gen k (row # rows) defaultSkill defaultType =
     (case parse_row (gen k) row defaultSkill defaultType of
        None \<Rightarrow> for_each_row gen k rows defaultSkill defaultType
      | Some q \<Rightarrow> q # for_each_row gen (Suc k) rows defaultSkill defaultType)"

definition parseDifyCSV ::
  "(nat \<Rightarrow> jsstring) \<Rightarrow> jsstring \<Rightarrow> jsstring \<Rightarrow> jsstring \<Rightarrow> question list" where
  "parseDifyCSV gen raw defaultSkill defaultType =
     for_each_row gen 0 (split_rows (normalize raw)) defaultSkill defaultType"

text \<open>The fields of a record other than its identifier.\<close>

definition fields_of :: "question \<Rightarrow> jsstring \<times> json \<times> jsstring \<times> jsstring \<times> jsstring" where
  "fields_of q = (description q, options q, answer q, skill q, type q)"

section \<open>The route handler\<close>

text \<open>
  \<^verbatim>\<open>POST\<close>, lines 7 to 18. The two configuration constants are read from the process
  environment and are strings or undefined (\<open>None\<close>). The result of \<^verbatim>\<open>await req.json()\<close>
  is a parameter: the parsed body, or a rejection with the \<^verbatim>\<open>message\<close> of the error
  thrown. \<open>null_error\<close> is the message of the TypeError that the runtime raises when the
  body is \<^verbatim>\<open>null\<close> and line 13 destructures it.

  The handler either responds, with a JSON body and a status, or goes on to line 19,
  where the prompt is built, the upstream workflow is called and its reply is parsed;
  \<open>Proceed\<close> stands for that continuation and carries the request body.
\<close>

record environment =
  DIFY_HOST :: "jsstring option"
  DIFY_API_KEY :: "jsstring option"

datatype 'a awaited = Resolved 'a | Rejected "jsstring option"

datatype outcome = Respond json nat | Proceed json

text \<open>The test \<^verbatim>\<open>!X\<close> on a string that may be undefined.\<close>

definition absent :: "jsstring option \<Rightarrow> bool" where
  "absent x = (case x of None \<Rightarrow> True | Some s \<Rightarrow> s = [])"

text \<open>
  Reading one of the properties \<^verbatim>\<open>range\<close>, \<^verbatim>\<open>skill\<close>, \<^verbatim>\<open>type\<close> of a parsed body that is
  not \<^verbatim>\<open>null\<close>: the last member with that key of an object, undefined for every other
  value. \<open>missing\<close> is the test \<^verbatim>\<open>!field\<close>.
\<close>

definition get_prop :: "json \<Rightarrow> jsstring \<Rightarrow> json option" where
  "get_prop v key = (case v of JObject ms \<Rightarrow> map_of (rev ms) key | _ \<Rightarrow> None)"

definition missing :: "json option \<Rightarrow> bool" where
  "missing f = (case f of None \<Rightarrow> True | Some v \<Rightarrow> js_falsy v)"

definition error_body :: "jsstring \<Rightarrow> json" where
  "error_body msg = JObject [(str ''error'', JString msg)]"

text \<open>The \<^verbatim>\<open>catch\<close> block, lines 56 to 59.\<close>

definition caught :: "jsstring option \<Rightarrow> outcome" where
  "caught message =
     Respond
       (error_body
         (case message of
            None \<Rightarrow> str ''Internal Server Error''
          | Some m \<Rightarrow> if m = [] then str ''Internal Server Error'' else m))
       500"

definition POST :: "environment \<Rightarrow> json awaited \<Rightarrow> jsstring option \<Rightarrow> outcome" where
  "POST env body null_error =
     (if absent (DIFY_HOST env) \<or> absent (DIFY_API_KEY env)
      then Respond (error_body (str ''Dify configuration is missing'')) 500
      else
        (case body of
           Rejected message \<Rightarrow> caught message
         | Resolved b \<Rightarrow>
             if b = JNull then caught null_error
             else if missing (get_prop b (str ''range'')) \<or> missing (get_prop b (str ''skill''))
                     \<or> missing (get_prop b (str ''type''))
               then Respond (error_body (str ''Missing required fields'')) 400
             else Proceed b))"

section \<open>Facts about the string operations\<close>


lemma split_str_no_sep: "sep \<noteq> [] \<Longrightarrow> \<not> includes_str sep s \<Longrightarrow> split_str sep s = [s]"
  by (induction s) auto


lemma includes_str_single: "includes_str [c] s \<longleftrightarrow> c \<in> set s"
  by (induction s) auto

lemma split_str_single:
  "c \<notin> set l1 \<Longrightarrow> split_str [c] (l1 @ c # l2) = l1 # split_str [c] l2"
  by (induction l1) auto

lemma starts_with_append: "starts_with sub s \<Longrightarrow> starts_with sub (s @ t)"
  by (induction sub s rule: starts_with.induct) auto

lemma includes_str_append: "includes_str sub s \<Longrightarrow> includes_str sub (s @ t)"
proof (induction s)
  case Nil
  then show ?case by (cases sub; cases t) auto
next
  case (Cons c cs)
  then show ?case using starts_with_append [of sub "c # cs" t] by auto
qed

lemma includes_str_Cons: "includes_str sub t \<Longrightarrow> includes_str sub (c # t)"
  by (cases t) auto

lemma includes_str_prepend: "includes_str sub t \<Longrightarrow> includes_str sub (s @ t)"
  by (induction s) (auto simp: includes_str_Cons simp del: includes_str.simps)

lemma field_delim_nonempty: "field_delim \<noteq> []"
  by (simp add: field_delim_def str_def)

lemma row_delim_nonempty: "row_delim \<noteq> []"
  by (simp add: row_delim_def str_def)

lemma decode_options_empty: "decode_options [] = JArray []"
  by code_simp

lemma includes_if_two_parts:
  assumes "2 \<le> length (split_str field_delim row)"
  shows "includes_str field_delim row"
proof (rule ccontr)
  assume "\<not> includes_str field_delim row"
  then have "split_str field_delim row = [row]"
    using field_delim_nonempty by (rule split_str_no_sep [rotated])
  with assms show False by simp
qed

lemma parse_row_strategyA:
  assumes "2 \<le> length (split_str field_delim row)"
  shows "parse_row uuid row ds dt =
    (case strategyA_fields (map trim (split_str field_delim row)) ds dt of
       (d, optionsStr, a, sk, ty) \<Rightarrow>
         Some \<lparr>id = uuid, description = d,
               options = (if ty = multiple_choice then decode_options optionsStr else JNull),
               answer = a, skill = sk, type = ty\<rparr>)"
  using assms includes_if_two_parts [OF assms]
  by (simp add: parse_row_def strategyA_def split: prod.splits)

lemma set_split_str: "p \<in> set (split_str sep s) \<Longrightarrow> set p \<subseteq> set s"
proof (induction sep s arbitrary: p rule: split_str.induct)
  case (1 sep)
  then show ?case by (auto split: if_splits)
next
  case (2 sep c cs)
  show ?case
  proof (cases "sep = []")
    case True
    with "2.prems" "2.IH"(1) show ?thesis by auto
  next
    case ne: False
    show ?thesis
    proof (cases "starts_with sep (c # cs)")
      case True
      with ne "2.prems" have "p = [] \<or> p \<in> set (split_str sep (drop (length sep) (c # cs)))"
        by auto
      with "2.IH"(2) [OF ne True, of p] set_drop_subset [of "length sep" "c # cs"] show ?thesis
        by auto
    next
      case False
      show ?thesis
      proof (cases "split_str sep cs")
        case Nil
        with ne False "2.prems" show ?thesis by auto
      next
        case (Cons q qs)
        with ne False "2.prems" have "p = c # q \<or> p \<in> set qs" by auto
        with "2.IH"(3) [OF ne False, of q] "2.IH"(3) [OF ne False, of p] Cons show ?thesis
          by auto
      qed
    qed
  qed
qed

lemma set_trim: "set (trim p) \<subseteq> set p"
proof -
  have "set (trim p) = set (dropWhile is_space (rev (dropWhile is_space p)))"
    by (simp add: trim_def)
  also have "\<dots> \<subseteq> set (rev (dropWhile is_space p))"
    by (rule set_dropWhileD [THEN subsetI])
  also have "\<dots> \<subseteq> set p"
    using set_dropWhileD [of _ is_space p] by auto
  finally show ?thesis .
qed

lemma fallback_options_pieces:
  assumes "p \<in> set (fallback_options optionsStr)"
  shows "p \<noteq> [] \<and> 0x5B \<notin> set p \<and> 0x5D \<notin> set p \<and> squote \<notin> set p \<and> set p \<subseteq> set optionsStr"
proof -
  let ?kept = "filter (\<lambda>c. c \<noteq> 0x5B \<and> c \<noteq> 0x5D \<and> c \<noteq> squote) optionsStr"
  from assms obtain piece where piece: "piece \<in> set (split_str (str '','') ?kept)"
    and p: "p = trim piece" and ne: "p \<noteq> []"
    by (auto simp: fallback_options_def)
  from set_split_str [OF piece] set_trim [of piece] p have "set p \<subseteq> set ?kept"
    by blast
  with ne show ?thesis by auto
qed

section \<open>Facts about the labelled spans\<close>

text \<open>
  A label is found exactly when one of its alternatives starts, in either case, at some
  position of the row. The captured group is a prefix of the text after the label and
  the whitespace; it ends at the end of the row or where a stop label starts, and no stop
  label starts inside it.
\<close>

lemma ci_starts_with_iff:
  "ci_starts_with p s \<longleftrightarrow> length p \<le> length s \<and> map canon (take (length p) s) = map canon p"
  by (induction p s rule: ci_starts_with.induct) auto

lemma match_label_Some_iff:
  "match_label ls s \<noteq> None \<longleftrightarrow> list_ex (\<lambda>l. ci_starts_with l s) ls"
  by (induction ls) auto

lemma find_label_Some_iff:
  "find_label ls s \<noteq> None \<longleftrightarrow> (\<exists>i\<le>length s. list_ex (\<lambda>l. ci_starts_with l (drop i s)) ls)"
proof (induction s)
  case Nil
  show ?case using match_label_Some_iff [of ls "[]"] by auto
next
  case (Cons c cs)
  have "(\<exists>i\<le>length (c # cs). list_ex (\<lambda>l. ci_starts_with l (drop i (c # cs))) ls) \<longleftrightarrow>
        list_ex (\<lambda>l. ci_starts_with l (c # cs)) ls
        \<or> (\<exists>i\<le>length cs. list_ex (\<lambda>l. ci_starts_with l (drop i cs)) ls)"
    (is "?L \<longleftrightarrow> ?A \<or> ?B")
  proof
    assume ?L
    then obtain i where i: "i \<le> length (c # cs)"
      and ex: "list_ex (\<lambda>l. ci_starts_with l (drop i (c # cs))) ls"
      by blast
    show "?A \<or> ?B"
    proof (cases i)
      case 0
      with ex show ?thesis by simp
    next
      case (Suc j)
      with i ex have "j \<le> length cs \<and> list_ex (\<lambda>l. ci_starts_with l (drop j cs)) ls"
        by simp
      then show ?thesis by blast
    qed
  next
    assume "?A \<or> ?B"
    then show ?L
    proof
      assume ?A
      then have "list_ex (\<lambda>l. ci_starts_with l (drop 0 (c # cs))) ls" by simp
      then show ?L by blast
    next
      assume ?B
      then obtain j where "j \<le> length cs" "list_ex (\<lambda>l. ci_starts_with l (drop j cs)) ls"
        by blast
      then have "Suc j \<le> length (c # cs) \<and> list_ex (\<lambda>l. ci_starts_with l (drop (Suc j) (c # cs))) ls"
        by simp
      then show ?L by blast
    qed
  qed
  with Cons.IH match_label_Some_iff [of ls "c # cs"] show ?case
    by (cases "match_label ls (c # cs)") auto
qed

lemma lazy_until_span:
  "\<exists>rest. s = lazy_until stops s @ rest
     \<and> (rest = [] \<or> list_ex (\<lambda>l. ci_starts_with l rest) stops)"
proof (induction s)
  case Nil
  show ?case by simp
next
  case (Cons c cs)
  show ?case
  proof (cases "list_ex (\<lambda>l. ci_starts_with l (c # cs)) stops")
    case True
    then have "c # cs = lazy_until stops (c # cs) @ (c # cs)
        \<and> list_ex (\<lambda>l. ci_starts_with l (c # cs)) stops"
      by simp
    then show ?thesis by blast
  next
    case False
    from Cons.IH obtain rest where "cs = lazy_until stops cs @ rest"
      and "rest = [] \<or> list_ex (\<lambda>l. ci_starts_with l rest) stops"
      by blast
    with False have "c # cs = lazy_until stops (c # cs) @ rest
        \<and> (rest = [] \<or> list_ex (\<lambda>l. ci_starts_with l rest) stops)"
      by simp
    then show ?thesis by blast
  qed
qed

lemma lazy_until_shortest:
  "i < length (lazy_until stops s) \<Longrightarrow> \<not> list_ex (\<lambda>l. ci_starts_with l (drop i s)) stops"
proof (induction s arbitrary: i)
  case Nil
  then show ?case by simp
next
  case (Cons c cs)
  show ?case
  proof (cases "list_ex (\<lambda>l. ci_starts_with l (c # cs)) stops")
    case True
    with Cons.prems show ?thesis by simp
  next
    case False
    show ?thesis
    proof (cases i)
      case 0
      with False show ?thesis by simp
    next
      case (Suc j)
      with Cons.prems False have "j < length (lazy_until stops cs)" by simp
      from Cons.IH [OF this] Suc show ?thesis by simp
    qed
  qed
qed

section \<open>Strategy A\<close>

text \<open>
  Claim C1. A row that splits on \<^verbatim>\<open>|->\<close> into at least five parts gives, through
  Strategy A, the field tuple of its first five parts, each trimmed: description,
  options text, answer, skill and type. The record pushed for the row has that
  description, answer, skill and type; its options are the decoded options text when the
  type is \<^verbatim>\<open>Multiple Choice\<close> and \<^verbatim>\<open>null\<close> otherwise.
\<close>

theorem rows_with_five_parts:
  assumes "5 \<le> length (split_str field_delim row)"
  shows "strategyA_fields (map trim (split_str field_delim row)) defaultSkill defaultType =
           (trim (split_str field_delim row ! 0), trim (split_str field_delim row ! 1),
            trim (split_str field_delim row ! 2), trim (split_str field_delim row ! 3),
            trim (split_str field_delim row ! 4))
       \<and> parse_row uuid row defaultSkill defaultType =
           Some \<lparr>id = uuid,
                 description = trim (split_str field_delim row ! 0),
                 options = (if trim (split_str field_delim row ! 4) = multiple_choice
                            then decode_options (trim (split_str field_delim row ! 1))
                            else JNull),
                 answer = trim (split_str field_delim row ! 2),
                 skill = trim (split_str field_delim row ! 3),
                 type = trim (split_str field_delim row ! 4)\<rparr>"
proof -
  from assms have two: "2 \<le> length (split_str field_delim row)" by simp
  from assms have "split_str field_delim row \<noteq> []" by auto
  with assms have fields:
    "strategyA_fields (map trim (split_str field_delim row)) defaultSkill defaultType =
       (trim (split_str field_delim row ! 0), trim (split_str field_delim row ! 1),
        trim (split_str field_delim row ! 2), trim (split_str field_delim row ! 3),
        trim (split_str field_delim row ! 4))"
    by (simp add: strategyA_fields_def)
  show ?thesis
    unfolding parse_row_strategyA [OF two] fields by simp
qed

theorem rows_with_five_parts_witness:
  "5 \<le> length (split_str field_delim (str ''Q1|->Opt A, Opt B|->Opt A|->Math|->Multiple Choice''))
   \<and> parse_row (str ''id-0'') (str ''Q1|->Opt A, Opt B|->Opt A|->Math|->Multiple Choice'')
         (str ''Reading'') (str ''Short Answer'') =
       Some \<lparr>id = str ''id-0'', description = str ''Q1'',
             options = JArray [JString (str ''Opt A''), JString (str ''Opt B'')],
             answer = str ''Opt A'', skill = str ''Math'', type = str ''Multiple Choice''\<rparr>"
proof -
  let ?row = "str ''Q1|->Opt A, Opt B|->Opt A|->Math|->Multiple Choice''"
  have h: "5 \<le> length (split_str field_delim ?row)"
    by code_simp
  have e0: "trim (split_str field_delim ?row ! 0) = str ''Q1''" by code_simp
  have e1: "trim (split_str field_delim ?row ! 1) = str ''Opt A, Opt B''" by code_simp
  have e2: "trim (split_str field_delim ?row ! 2) = str ''Opt A''" by code_simp
  have e3: "trim (split_str field_delim ?row ! 3) = str ''Math''" by code_simp
  have e4: "trim (split_str field_delim ?row ! 4) = multiple_choice" by code_simp
  have dec: "decode_options (str ''Opt A, Opt B'') =
      JArray [JString (str ''Opt A''), JString (str ''Opt B'')]"
    by code_simp
  from rows_with_five_parts [OF h, of "str ''Reading''" "str ''Short Answer''" "str ''id-0''"]
  show ?thesis
    unfolding e0 e1 e2 e3 e4 dec using h by (simp add: multiple_choice_def)
qed

text \<open>
  Claim C5. A row that splits into two, three or four parts gives the field tuple with
  the first part as description, the second part as answer, the empty options text and
  the caller's default skill and type; the record pushed has these fields, and decoding
  the empty options text gives the empty sequence.
\<close>

theorem rows_with_two_to_four_parts:
  assumes "2 \<le> length (split_str field_delim row)"
    and "length (split_str field_delim row) \<le> 4"
  shows "strategyA_fields (map trim (split_str field_delim row)) defaultSkill defaultType =
           (trim (split_str field_delim row ! 0), [], trim (split_str field_delim row ! 1),
            defaultSkill, defaultType)
       \<and> parse_row uuid row defaultSkill defaultType =
           Some \<lparr>id = uuid,
                 description = trim (split_str field_delim row ! 0),
                 options = (if defaultType = multiple_choice then decode_options [] else JNull),
                 answer = trim (split_str field_delim row ! 1),
                 skill = defaultSkill,
                 type = defaultType\<rparr>
       \<and> decode_options [] = JArray []"
proof -
  from assms have "split_str field_delim row \<noteq> []" by auto
  with assms have fields:
    "strategyA_fields (map trim (split_str field_delim row)) defaultSkill defaultType =
       (trim (split_str field_delim row ! 0), [], trim (split_str field_delim row ! 1),
        defaultSkill, defaultType)"
    by (simp add: strategyA_fields_def)
  show ?thesis
    unfolding parse_row_strategyA [OF assms(1)] fields by (simp add: decode_options_empty)
qed

theorem rows_with_two_to_four_parts_witness:
  "2 \<le> length (split_str field_delim (str ''Q2|->Opt C''))
   \<and> length (split_str field_delim (str ''Q2|->Opt C'')) \<le> 4
   \<and> parse_row (str ''id-1'') (str ''Q2|->Opt C'') (str ''Reading'') (str ''Short Answer'') =
       Some \<lparr>id = str ''id-1'', description = str ''Q2'', options = JNull,
             answer = str ''Opt C'', skill = str ''Reading'', type = str ''Short Answer''\<rparr>"
proof -
  let ?row = "str ''Q2|->Opt C''"
  have lo: "2 \<le> length (split_str field_delim ?row)" by code_simp
  have hi: "length (split_str field_delim ?row) \<le> 4" by code_simp
  have e0: "trim (split_str field_delim ?row ! 0) = str ''Q2''" by code_simp
  have e1: "trim (split_str field_delim ?row ! 1) = str ''Opt C''" by code_simp
  have ty: "str ''Short Answer'' \<noteq> multiple_choice" by code_simp
  from rows_with_two_to_four_parts [OF lo hi, of "str ''Reading''" "str ''Short Answer''" "str ''id-1''"]
  show ?thesis
    unfolding e0 e1 using lo hi ty by simp
qed



section \<open>Row splitter\<close>

text \<open>
  Claim C4. When the split on \<^verbatim>\<open><_>\<close> leaves at most one non-blank row and the text has
  both \<^verbatim>\<open>|->\<close> and a newline, the rows are the lines that contain \<^verbatim>\<open>|->\<close>, in order. In
  particular a text without \<^verbatim>\<open><_>\<close> made of two lines that each contain \<^verbatim>\<open>|->\<close> gives
  exactly these two lines.
\<close>

theorem line_fallback:
  "(length (filter (\<lambda>row. length (trim row) > 0) (split_str row_delim t)) \<le> 1
      \<and> includes_str field_delim t \<and> includes_str [newline] t
    \<longrightarrow> split_rows t = filter (\<lambda>row. includes_str field_delim row) (split_str [newline] t))
   \<and> (\<not> includes_str row_delim (l1 @ newline # l2)
      \<and> newline \<notin> set l1 \<and> newline \<notin> set l2
      \<and> includes_str field_delim l1 \<and> includes_str field_delim l2
    \<longrightarrow> split_rows (l1 @ newline # l2) = [l1, l2])"
proof (intro conjI impI)
  assume "length (filter (\<lambda>row. length (trim row) > 0) (split_str row_delim t)) \<le> 1
      \<and> includes_str field_delim t \<and> includes_str [newline] t"
  then show "split_rows t = filter (\<lambda>row. includes_str field_delim row) (split_str [newline] t)"
    by (simp add: split_rows_def)
next
  let ?t = "l1 @ newline # l2"
  assume a: "\<not> includes_str row_delim ?t
      \<and> newline \<notin> set l1 \<and> newline \<notin> set l2
      \<and> includes_str field_delim l1 \<and> includes_str field_delim l2"
  then have "split_str row_delim ?t = [?t]"
    using row_delim_nonempty by (simp add: split_str_no_sep)
  then have few: "length (filter (\<lambda>row. length (trim row) > 0) (split_str row_delim ?t)) \<le> 1"
    by simp
  from a have fd: "includes_str field_delim ?t"
    by (simp add: includes_str_append)
  have nl: "includes_str [newline] ?t"
    by (simp add: includes_str_single)
  from a have "\<not> includes_str [newline] l2"
    by (simp add: includes_str_single)
  then have "split_str [newline] l2 = [l2]"
    by (simp add: split_str_no_sep)
  with a have lines: "split_str [newline] ?t = [l1, l2]"
    by (simp add: split_str_single)
  from few fd nl have "split_rows ?t = filter (\<lambda>row. includes_str field_delim row) (split_str [newline] ?t)"
    by (simp add: split_rows_def)
  with lines a show "split_rows ?t = [l1, l2]"
    by simp
qed

theorem line_fallback_witness:
  "length (filter (\<lambda>row. length (trim row) > 0)
       (split_str row_delim (str ''a|->b'' @ newline # str ''c|->d''))) \<le> 1
   \<and> includes_str field_delim (str ''a|->b'' @ newline # str ''c|->d'')
   \<and> includes_str [newline] (str ''a|->b'' @ newline # str ''c|->d'')
   \<and> \<not> includes_str row_delim (str ''a|->b'' @ newline # str ''c|->d'')
   \<and> newline \<notin> set (str ''a|->b'') \<and> newline \<notin> set (str ''c|->d'')
   \<and> includes_str field_delim (str ''a|->b'') \<and> includes_str field_delim (str ''c|->d'')
   \<and> split_rows (str ''a|->b'' @ newline # str ''c|->d'') =
       filter (\<lambda>row. includes_str field_delim row)
         (split_str [newline] (str ''a|->b'' @ newline # str ''c|->d''))
   \<and> split_rows (str ''a|->b'' @ newline # str ''c|->d'') = [str ''a|->b'', str ''c|->d'']"
proof -
  let ?t = "str ''a|->b'' @ newline # str ''c|->d''"
  have h1: "length (filter (\<lambda>row. length (trim row) > 0) (split_str row_delim ?t)) \<le> 1"
    by code_simp
  have h2: "includes_str field_delim ?t" by code_simp
  have h3: "includes_str [newline] ?t" by code_simp
  have h4: "\<not> includes_str row_delim ?t" by code_simp
  have h5: "newline \<notin> set (str ''a|->b'')" by (simp add: newline_def str_def)
  have h6: "newline \<notin> set (str ''c|->d'')" by (simp add: newline_def str_def)
  have h7: "includes_str field_delim (str ''a|->b'')" by code_simp
  have h8: "includes_str field_delim (str ''c|->d'')" by code_simp
  from line_fallback [of ?t "str ''a|->b''" "str ''c|->d''"] h1 h2 h3 h4 h5 h6 h7 h8
  show ?thesis by blast
qed

section \<open>A whole run\<close>

text \<open>Two rows separated by \<^verbatim>\<open><_>\<close>, the first with five parts and the second with two.\<close>

lemma end_to_end_scenario:
  "parseDifyCSV (\<lambda>k. if k = 0 then str ''id-0'' else str ''id-1'')
     (str ''Q1|->Opt A, Opt B|->Opt A|->Math|->Multiple Choice<_>Q2|->Opt C'')
     (str ''Reading'') (str ''Short Answer'') =
   [\<lparr>id = str ''id-0'', description = str ''Q1'',
      options = JArray [JString (str ''Opt A''), JString (str ''Opt B'')],
      answer = str ''Opt A'', skill = str ''Math'', type = str ''Multiple Choice''\<rparr>,
    \<lparr>id = str ''id-1'', description = str ''Q2'', options = JNull,
      answer = str ''Opt C'', skill = str ''Reading'', type = str ''Short Answer''\<rparr>]"
  by code_simp

section \<open>Determinism up to identifiers\<close>

lemma strategyA_id:
  "strategyA u parts ds dt = map_option (\<lambda>q. q\<lparr>id := u\<rparr>) (strategyA u' parts ds dt)"
  by (simp add: strategyA_def split: prod.splits)

lemma strategyB_id:
  "strategyB u row ds dt = map_option (\<lambda>q. q\<lparr>id := u\<rparr>) (strategyB u' row ds dt)"
  by (simp add: strategyB_def Let_def split: option.splits)

lemma parse_row_id:
  "parse_row u row ds dt = map_option (\<lambda>q. q\<lparr>id := u\<rparr>) (parse_row u' row ds dt)"
proof (cases "includes_str field_delim row")
  case False
  then show ?thesis using strategyB_id [of u row ds dt u'] by (simp add: parse_row_def)
next
  case True
  show ?thesis
  proof (cases "strategyA u' (map trim (split_str field_delim row)) ds dt")
    case None
    with True strategyA_id [of u "map trim (split_str field_delim row)" ds dt u']
      strategyB_id [of u row ds dt u']
    show ?thesis by (simp add: parse_row_def)
  next
    case (Some q)
    with True strategyA_id [of u "map trim (split_str field_delim row)" ds dt u']
    show ?thesis by (simp add: parse_row_def)
  qed
qed

lemma for_each_row_fields:
  "map fields_of (for_each_row g1 k1 rows ds dt) = map fields_of (for_each_row g2 k2 rows ds dt)"
proof (induction rows arbitrary: k1 k2)
  case Nil
  show ?case by simp
next
  case (Cons row rows)
  show ?case
  proof (cases "parse_row (g2 k2) row ds dt")
    case None
    with parse_row_id [of "g1 k1" row ds dt "g2 k2"]
    have "parse_row (g1 k1) row ds dt = None" by simp
    with None Cons.IH [of k1 k2] show ?thesis by simp
  next
    case (Some q)
    with parse_row_id [of "g1 k1" row ds dt "g2 k2"]
    have "parse_row (g1 k1) row ds dt = Some (q\<lparr>id := g1 k1\<rparr>)" by simp
    with Some Cons.IH [of "Suc k1" "Suc k2"] show ?thesis
      by (simp add: fields_of_def)
  qed
qed

text \<open>
  Claim C8. Two runs of the parser on the same raw text and defaults, with whatever
  identifiers the generator returns in each run, give sequences of the same length whose
  records agree in description, options, answer, skill and type.
\<close>

theorem parse_twice_same_fields:
  "length (parseDifyCSV gen1 raw defaultSkill defaultType) =
     length (parseDifyCSV gen2 raw defaultSkill defaultType)
   \<and> map fields_of (parseDifyCSV gen1 raw defaultSkill defaultType) =
       map fields_of (parseDifyCSV gen2 raw defaultSkill defaultType)"
proof -
  have eq: "map fields_of (parseDifyCSV gen1 raw defaultSkill defaultType) =
       map fields_of (parseDifyCSV gen2 raw defaultSkill defaultType)"
    unfolding parseDifyCSV_def by (rule for_each_row_fields)
  from eq have "length (parseDifyCSV gen1 raw defaultSkill defaultType) =
       length (parseDifyCSV gen2 raw defaultSkill defaultType)"
    by (rule map_eq_imp_length_eq)
  with eq show ?thesis by simp
qed

section \<open>Strategy B\<close>

text \<open>
  Claim C3, as the code has it. The claim says that Strategy B accepts a row only when
  the extracted description and answer are both non-empty. Line 115 tests the two match
  results, and a match whose group is empty is still a match: the row
  \<^verbatim>\<open>Description: Answer:\<close> is accepted with an empty description and an empty answer.
\<close>

theorem strategyB_empty_fields_counterexample:
  "\<not> includes_str field_delim (str ''Description: Answer:'')
   \<and> parse_row (str ''id'') (str ''Description: Answer:'') (str ''Reading'') (str ''Short Answer'') =
       Some \<lparr>id = str ''id'', description = [], options = JNull, answer = [],
             skill = str ''Reading'', type = str ''Short Answer''\<rparr>"
  by code_simp

text \<open>
  Claim C3, amended. For a row without the field delimiter, a record is pushed exactly
  when both the description expression and the answer expression match: none is pushed
  when either fails, and when both match the record has the trimmed groups as
  description and answer (either may be empty) and the caller's default skill and type.
\<close>

theorem strategyB_accepts_on_labels:
  assumes "\<not> includes_str field_delim row"
  shows "(descMatch row = None \<or> ansMatch row = None
            \<longrightarrow> parse_row uuid row defaultSkill defaultType = None)
       \<and> (\<forall>d a. descMatch row = Some d \<and> ansMatch row = Some a
            \<longrightarrow> (\<exists>q. parse_row uuid row defaultSkill defaultType = Some q
                    \<and> description q = trim d \<and> answer q = trim a
                    \<and> skill q = defaultSkill \<and> type q = defaultType))"
  using assms by (auto simp: parse_row_def strategyB_def Let_def split: option.splits)

theorem strategyB_accepts_on_labels_witness:
  "\<not> includes_str field_delim (str ''Description: What? Answer: Yes'')
   \<and> descMatch (str ''Description: What? Answer: Yes'') = Some (str ''What? '')
   \<and> ansMatch (str ''Description: What? Answer: Yes'') = Some (str ''Yes'')
   \<and> (\<exists>q. parse_row (str ''id'') (str ''Description: What? Answer: Yes'')
              (str ''Reading'') (str ''Short Answer'') = Some q
          \<and> description q = str ''What?'' \<and> answer q = str ''Yes''
          \<and> skill q = str ''Reading'' \<and> type q = str ''Short Answer'')"
proof -
  let ?row = "str ''Description: What? Answer: Yes''"
  have h: "\<not> includes_str field_delim ?row" by code_simp
  have d: "descMatch ?row = Some (str ''What? '')" by code_simp
  have a: "ansMatch ?row = Some (str ''Yes'')" by code_simp
  have t1: "trim (str ''What? '') = str ''What?''" by code_simp
  have t2: "trim (str ''Yes'') = str ''Yes''" by code_simp
  from strategyB_accepts_on_labels [OF h, of "str ''id''" "str ''Reading''" "str ''Short Answer''"] d a
  have "\<exists>q. parse_row (str ''id'') ?row (str ''Reading'') (str ''Short Answer'') = Some q
          \<and> description q = trim (str ''What? '') \<and> answer q = trim (str ''Yes'')
          \<and> skill q = str ''Reading'' \<and> type q = str ''Short Answer''"
    by blast
  with h d a show ?thesis unfolding t1 t2 by simp
qed

text \<open>
  Claim C7 says that a row \<^verbatim>\<open>1. <desc> Answer: <ans>\<close> gives a record. The description
  expression has the colon after the whole group of alternatives, so an enumerator is a
  label only when written \<^verbatim>\<open>1.:\<close>; on the row \<^verbatim>\<open>1. What? Answer: Yes\<close> the answer
  expression matches, the description expression does not, and no record is pushed.
\<close>

theorem enumerator_row_dropped:
  "\<not> includes_str field_delim (str ''1. What? Answer: Yes'')
   \<and> descMatch (str ''1. What? Answer: Yes'') = None
   \<and> ansMatch (str ''1. What? Answer: Yes'') = Some (str ''Yes'')
   \<and> parse_row uuid (str ''1. What? Answer: Yes'') defaultSkill defaultType = None
   \<and> for_each_row gen k [str ''1. What? Answer: Yes''] defaultSkill defaultType = []"
proof -
  have i: "\<not> includes_str field_delim (str ''1. What? Answer: Yes'')" by code_simp
  have d: "descMatch (str ''1. What? Answer: Yes'') = None" by code_simp
  have a: "ansMatch (str ''1. What? Answer: Yes'') = Some (str ''Yes'')" by code_simp
  have "parse_row u (str ''1. What? Answer: Yes'') defaultSkill defaultType = None" for u
    using i d by (simp add: parse_row_def strategyB_def)
  with i d a show ?thesis by simp
qed

text \<open>With the colon after the enumerator the same row is accepted.\<close>

lemma enumerator_with_colon_accepted:
  "parse_row (str ''id'') (str ''1.: What? Answer: Yes'') (str ''Reading'') (str ''Short Answer'') =
     Some \<lparr>id = str ''id'', description = str ''What?'', options = JNull, answer = str ''Yes'',
           skill = str ''Reading'', type = str ''Short Answer''\<rparr>"
  by code_simp

section \<open>Option decoder\<close>

text \<open>
  Claim C6, as the code has it. The claim says that the fallback strips all quote
  characters. It strips \<^verbatim>\<open>[\<close>, \<^verbatim>\<open>]\<close> and \<^verbatim>\<open>'\<close> only: on the unterminated list
  \<^verbatim>\<open>["A", "B"\<close> the primary decode fails and the pieces keep their double quotes.
\<close>

theorem fallback_decoder_keeps_double_quotes_counterexample:
  "JSON_parse (sanitize (str ''[\"A\", \"B\"'')) = None
   \<and> decode_options (str ''[\"A\", \"B\"'') =
       JArray [JString ([dquote] @ str ''A'' @ [dquote]), JString ([dquote] @ str ''B'' @ [dquote])]"
  by code_simp

text \<open>
  Claim C6, amended. When \<^verbatim>\<open>JSON.parse\<close> rejects the options text, the result is the
  sequence of the non-empty trimmed pieces, in order, of the text without \<^verbatim>\<open>[\<close>, \<^verbatim>\<open>]\<close>
  and \<^verbatim>\<open>'\<close>, split on commas; no piece is empty or contains one of these three
  characters. Decoding \<^verbatim>\<open>['A', 'B', 'C']\<close> gives A, B, C through the primary decode, and
  \<^verbatim>\<open>[A, B, C]\<close> gives A, B, C through the fallback.
\<close>

theorem fallback_decoder:
  "(JSON_parse (sanitize optionsStr) = None
      \<longrightarrow> decode_options optionsStr =
            JArray (map JString
              (filter (\<lambda>piece. piece \<noteq> [])
                (map trim
                  (split_str (str '','')
                    (filter (\<lambda>c. c \<noteq> 0x5B \<and> c \<noteq> 0x5D \<and> c \<noteq> squote) optionsStr)))))
          \<and> (\<forall>v. v \<in> set (fallback_options optionsStr)
                \<longrightarrow> v \<noteq> [] \<and> 0x5B \<notin> set v \<and> 0x5D \<notin> set v \<and> squote \<notin> set v))
   \<and> decode_options (str ''['A', 'B', 'C']'') =
       JArray [JString (str ''A''), JString (str ''B''), JString (str ''C'')]
   \<and> JSON_parse (sanitize (str ''[A, B, C]'')) = None
   \<and> decode_options (str ''[A, B, C]'') =
       JArray [JString (str ''A''), JString (str ''B''), JString (str ''C'')]"
proof -
  have e1: "decode_options (str ''['A', 'B', 'C']'') =
       JArray [JString (str ''A''), JString (str ''B''), JString (str ''C'')]"
    by code_simp
  have e2: "JSON_parse (sanitize (str ''[A, B, C]'')) = None"
    by code_simp
  have e3: "decode_options (str ''[A, B, C]'') =
       JArray [JString (str ''A''), JString (str ''B''), JString (str ''C'')]"
    by code_simp
  have gen: "JSON_parse (sanitize optionsStr) = None
      \<longrightarrow> decode_options optionsStr =
            JArray (map JString
              (filter (\<lambda>piece. piece \<noteq> [])
                (map trim
                  (split_str (str '','')
                    (filter (\<lambda>c. c \<noteq> 0x5B \<and> c \<noteq> 0x5D \<and> c \<noteq> squote) optionsStr)))))
          \<and> (\<forall>v. v \<in> set (fallback_options optionsStr)
                \<longrightarrow> v \<noteq> [] \<and> 0x5B \<notin> set v \<and> 0x5D \<notin> set v \<and> squote \<notin> set v)"
    using fallback_options_pieces [of _ optionsStr]
    by (simp add: decode_options_def fallback_options_def)
  from gen e1 e2 e3 show ?thesis by blast
qed

theorem fallback_decoder_witness:
  "JSON_parse (sanitize (str ''Opt A, [Opt B],, '' @ [squote])) = None
   \<and> decode_options (str ''Opt A, [Opt B],, '' @ [squote]) =
       JArray [JString (str ''Opt A''), JString (str ''Opt B'')]"
proof -
  let ?s = "str ''Opt A, [Opt B],, '' @ [squote]"
  have h: "JSON_parse (sanitize ?s) = None" by code_simp
  have ev: "filter (\<lambda>piece. piece \<noteq> [])
                (map trim
                  (split_str (str '','')
                    (filter (\<lambda>c. c \<noteq> 0x5B \<and> c \<noteq> 0x5D \<and> c \<noteq> squote) ?s))) =
            [str ''Opt A'', str ''Opt B'']"
    by code_simp
  from fallback_decoder [of ?s] h show ?thesis
    unfolding ev by simp
qed

section \<open>The options invariant\<close>

text \<open>
  Claim C2 says that a record of type \<^verbatim>\<open>Multiple Choice\<close> always has a sequence of
  strings as options. Strategy A stores whatever \<^verbatim>\<open>JSON.parse\<close> returns: with the options
  text \<^verbatim>\<open>null\<close> the record has type \<^verbatim>\<open>Multiple Choice\<close> and options \<^verbatim>\<open>null\<close>, and with
  the options text \<^verbatim>\<open>5\<close> its options are the number 5.
\<close>

theorem multiple_choice_without_sequence:
  "parseDifyCSV (\<lambda>k. str ''id'') (str ''Q|->null|->A|->Reading|->Multiple Choice'')
       (str ''Reading'') (str ''Short Answer'') =
     [\<lparr>id = str ''id'', description = str ''Q'', options = JNull, answer = str ''A'',
       skill = str ''Reading'', type = str ''Multiple Choice''\<rparr>]
   \<and> parseDifyCSV (\<lambda>k. str ''id'') (str ''Q|->5|->A|->Reading|->Multiple Choice'')
       (str ''Reading'') (str ''Short Answer'') =
     [\<lparr>id = str ''id'', description = str ''Q'', options = JNumber False 5 0, answer = str ''A'',
       skill = str ''Reading'', type = str ''Multiple Choice''\<rparr>]"
  by code_simp

text \<open>
  The other half of the invariant holds on every path: a record whose type is not
  \<^verbatim>\<open>Multiple Choice\<close> has no options.
\<close>

lemma parse_row_options_null:
  assumes "parse_row uuid row ds dt = Some q" and "type q \<noteq> multiple_choice"
  shows "options q = JNull"
proof (cases "includes_str field_delim row
               \<and> strategyA uuid (map trim (split_str field_delim row)) ds dt \<noteq> None")
  case True
  with assms(1) have "strategyA uuid (map trim (split_str field_delim row)) ds dt = Some q"
    by (auto simp: parse_row_def)
  with assms(2) show ?thesis
    by (auto simp: strategyA_def split: if_splits prod.splits)
next
  case False
  with assms(1) have "strategyB uuid row ds dt = Some q"
    by (auto simp: parse_row_def split: if_splits)
  with assms(2) show ?thesis
    by (auto simp: strategyB_def Let_def js_falsy_def split: option.splits if_splits)
qed

lemma for_each_row_options_null:
  "q \<in> set (for_each_row gen k rows ds dt) \<Longrightarrow> type q \<noteq> multiple_choice \<Longrightarrow> options q = JNull"
proof (induction rows arbitrary: k)
  case Nil
  then show ?case by simp
next
  case (Cons row rows)
  show ?case
  proof (cases "parse_row (gen k) row ds dt")
    case None
    with Cons show ?thesis by simp
  next
    case (Some q')
    with Cons.prems(1) have "q = q' \<or> q \<in> set (for_each_row gen (Suc k) rows ds dt)"
      by simp
    then show ?thesis
    proof
      assume "q = q'"
      with Some Cons.prems(2) show ?thesis by (auto dest: parse_row_options_null)
    next
      assume "q \<in> set (for_each_row gen (Suc k) rows ds dt)"
      with Cons.IH Cons.prems(2) show ?thesis by blast
    qed
  qed
qed

lemma options_null_unless_multiple_choice:
  "q \<in> set (parseDifyCSV gen raw ds dt) \<Longrightarrow> type q \<noteq> multiple_choice \<Longrightarrow> options q = JNull"
  unfolding parseDifyCSV_def by (rule for_each_row_options_null)

section \<open>Early responses of the route handler\<close>

text \<open>
  Claim C9, as the code has it. The claim says that the handler answers with status 400
  whenever one of the required fields is missing. A request whose body is \<^verbatim>\<open>null\<close> has
  none of the three fields, but line 13 cannot destructure \<^verbatim>\<open>null\<close>: the TypeError goes
  to the \<^verbatim>\<open>catch\<close> block, which answers with status 500 and the message of the error.
\<close>

theorem null_body_status_counterexample:
  "\<not> absent (DIFY_HOST \<lparr>DIFY_HOST = Some (str ''host''), DIFY_API_KEY = Some (str ''key'')\<rparr>)
   \<and> \<not> absent (DIFY_API_KEY \<lparr>DIFY_HOST = Some (str ''host''), DIFY_API_KEY = Some (str ''key'')\<rparr>)
   \<and> missing (get_prop JNull (str ''range''))
   \<and> missing (get_prop JNull (str ''skill''))
   \<and> missing (get_prop JNull (str ''type''))
   \<and> POST \<lparr>DIFY_HOST = Some (str ''host''), DIFY_API_KEY = Some (str ''key'')\<rparr>
        (Resolved JNull) (Some (str ''Cannot destructure property range of null''))
       = Respond
           (JObject [(str ''error'', JString (str ''Cannot destructure property range of null''))])
           500
   \<and> POST \<lparr>DIFY_HOST = Some (str ''host''), DIFY_API_KEY = Some (str ''key'')\<rparr>
        (Resolved JNull) (Some (str ''Cannot destructure property range of null''))
       \<noteq> Respond (error_body (str ''Missing required fields'')) 400"
  by (simp add: POST_def caught_def error_body_def absent_def missing_def get_prop_def str_def)

text \<open>
  Claim C9, amended. When the host or the API key is absent the handler responds with
  status 500 and the message \<^verbatim>\<open>Dify configuration is missing\<close>, whatever the request is.
  When both are present and the body was read as a value other than \<^verbatim>\<open>null\<close>, a body in
  which one of \<^verbatim>\<open>range\<close>, \<^verbatim>\<open>skill\<close>, \<^verbatim>\<open>type\<close> is missing gets status 400 and the
  message \<^verbatim>\<open>Missing required fields\<close>. In both cases the outcome is the response and not
  the continuation that calls the upstream workflow and the parser.
\<close>

theorem early_error_responses:
  "(absent (DIFY_HOST env) \<or> absent (DIFY_API_KEY env)
      \<longrightarrow> POST env body null_error
            = Respond (error_body (str ''Dify configuration is missing'')) 500)
   \<and> (\<not> absent (DIFY_HOST env) \<and> \<not> absent (DIFY_API_KEY env) \<and> b \<noteq> JNull
        \<and> (missing (get_prop b (str ''range'')) \<or> missing (get_prop b (str ''skill''))
             \<or> missing (get_prop b (str ''type'')))
      \<longrightarrow> POST env (Resolved b) null_error
            = Respond (error_body (str ''Missing required fields'')) 400)"
  by (simp add: POST_def)

theorem early_error_responses_witness:
  "absent (DIFY_HOST \<lparr>DIFY_HOST = None, DIFY_API_KEY = Some (str ''key'')\<rparr>)
   \<and> POST \<lparr>DIFY_HOST = None, DIFY_API_KEY = Some (str ''key'')\<rparr>
        (Resolved (JObject [])) None
       = Respond (JObject [(str ''error'', JString (str ''Dify configuration is missing''))]) 500
   \<and> \<not> absent (DIFY_HOST \<lparr>DIFY_HOST = Some (str ''host''), DIFY_API_KEY = Some (str ''key'')\<rparr>)
   \<and> \<not> absent (DIFY_API_KEY \<lparr>DIFY_HOST = Some (str ''host''), DIFY_API_KEY = Some (str ''key'')\<rparr>)
   \<and> JObject [(str ''range'', JString (str ''1-5'')), (str ''skill'', JString (str ''Reading''))]
        \<noteq> JNull
   \<and> missing (get_prop
        (JObject [(str ''range'', JString (str ''1-5'')), (str ''skill'', JString (str ''Reading''))])
        (str ''type''))
   \<and> POST \<lparr>DIFY_HOST = Some (str ''host''), DIFY_API_KEY = Some (str ''key'')\<rparr>
        (Resolved
          (JObject [(str ''range'', JString (str ''1-5'')), (str ''skill'', JString (str ''Reading''))]))
        None
       = Respond (JObject [(str ''error'', JString (str ''Missing required fields''))]) 400"
proof -
  let ?e1 = "\<lparr>DIFY_HOST = None, DIFY_API_KEY = Some (str ''key'')\<rparr>"
  let ?e2 = "\<lparr>DIFY_HOST = Some (str ''host''), DIFY_API_KEY = Some (str ''key'')\<rparr>"
  let ?b = "JObject [(str ''range'', JString (str ''1-5'')), (str ''skill'', JString (str ''Reading''))]"
  have h1: "absent (DIFY_HOST ?e1)" by (simp add: absent_def)
  have h2: "\<not> absent (DIFY_HOST ?e2)" by (simp add: absent_def str_def)
  have h3: "\<not> absent (DIFY_API_KEY ?e2)" by (simp add: absent_def str_def)
  have h4: "?b \<noteq> JNull" by simp
  have h5: "missing (get_prop ?b (str ''type''))"
    by (simp add: missing_def get_prop_def str_def)
  from early_error_responses [of ?e1 "Resolved (JObject [])" None ?b]
    early_error_responses [of ?e2 "Resolved ?b" None ?b] h1 h2 h3 h4 h5
  show ?thesis by (simp add: error_body_def)
qed

text \<open>
  With the configuration present, a body that is \<^verbatim>\<open>null\<close> and a body that could not be
  read both end in the \<^verbatim>\<open>catch\<close> block, whose status is always 500.
\<close>

lemma null_body_is_internal_error:
  "\<not> absent (DIFY_HOST env) \<Longrightarrow> \<not> absent (DIFY_API_KEY env) \<Longrightarrow>
     POST env (Resolved JNull) null_error = caught null_error"
  by (simp add: POST_def)

lemma unread_body_is_internal_error:
  "\<not> absent (DIFY_HOST env) \<Longrightarrow> \<not> absent (DIFY_API_KEY env) \<Longrightarrow>
     POST env (Rejected message) null_error = caught message"
  by (simp add: POST_def)

lemma caught_status: "\<exists>msg. caught message = Respond (error_body msg) 500"
  unfolding caught_def by blast

end
